theory Spec2Isabelle
  imports Main "HOL-Library.Word"
begin

unbundle bit_operations_syntax

section \<open>overlaybd: \<^verbatim>\<open>src/overlaybd/utility.h\<close>\<close>

text \<open>
  A shallow embedding of the primitives of \<^verbatim>\<open>utility.h\<close>: the scoped-cleanup handle
  \<^verbatim>\<open>Defer\<close>, the predicate \<^verbatim>\<open>is_power_of_2\<close>, the integer range \<^verbatim>\<open>xrange_t\<close>, the
  alignment functions and the tagged pointer \<^verbatim>\<open>OwnedPtr\<close>.

  \<^verbatim>\<open>uint64_t\<close> and \<open>int64_t\<close> are both \<open>64 word\<close>: \<open>+\<close> and \<open>-\<close> wrap, \<open>unat\<close> reads a
  word as unsigned and \<open>sint\<close> as two's complement. A pointer cast to \<^verbatim>\<open>uint64_t\<close> is
  the 64-bit word of its address.
\<close>

type_synonym uint64_t = "64 word"

subsection \<open>\<^verbatim>\<open>Defer\<close>, \<^verbatim>\<open>make_defer\<close> and \<^verbatim>\<open>DEFER\<close>\<close>

text \<open>
  \<^verbatim>\<open>
  template <typename T>
  class Defer {
  public:
      Defer(T fn) : m_func(fn) {}
      ~Defer() { m_func(); }
      void operator=(const Defer<T> &) = delete;
      operator bool() { return true; }
  private:
      T m_func;
  };
  template <typename T>
  Defer<T> make_defer(T func) { return Defer<T>(func); }
  #define DEFER(func) auto _CONCAT(__defer__, __LINE__) = make_defer([&]() __INLINE__ { func; })
  \<close>
  The callable \<^verbatim>\<open>T\<close> has no parameter and no result: what it does is a change of the
  program state \<open>'s\<close>, so it is a function \<open>'s \<Rightarrow> 's\<close>. Every member function takes
  the program state and returns it, so that a member that calls \<^verbatim>\<open>m_func\<close> differs
  from one that does not:
  \<^item> the constructor stores the callable and does not call it;
  \<^item> the copy constructor is the implicit one (the class declares none): it copies
    \<^verbatim>\<open>m_func\<close> and does not call it;
  \<^item> \<^verbatim>\<open>operator=\<close> is deleted: a program that assigns a handle does not compile, so
    there is no function for it;
  \<^item> the destructor calls \<^verbatim>\<open>m_func\<close>.
  The handle that \<^verbatim>\<open>make_defer\<close> returns initialises the declared variable
  directly (copy elision: no temporary handle is destroyed on the way).
\<close>

record 's Defer =
  m_func :: "'s \<Rightarrow> 's"

definition Defer_ctor :: "('s \<Rightarrow> 's) \<Rightarrow> 's \<Rightarrow> 's Defer \<times> 's" where
  "Defer_ctor fn s = (\<lparr>m_func = fn\<rparr>, s)"

definition Defer_copy :: "'s Defer \<Rightarrow> 's \<Rightarrow> 's Defer \<times> 's" where
  "Defer_copy d s = (\<lparr>m_func = m_func d\<rparr>, s)"

definition Defer_dtor :: "'s Defer \<Rightarrow> 's \<Rightarrow> 's" where
  "Defer_dtor d s = m_func d s"

definition Defer_bool :: "'s Defer \<Rightarrow> 's \<Rightarrow> bool \<times> 's" where
  "Defer_bool d s = (True, s)"

definition make_defer :: "('s \<Rightarrow> 's) \<Rightarrow> 's \<Rightarrow> 's Defer \<times> 's" where
  "make_defer func s = Defer_ctor func s"

text \<open>
  A scope is the list of its live automatic handles, the most recently declared
  first, with the program state. \<^verbatim>\<open>DEFER(func)\<close> declares one more handle. Leaving
  the scope destroys the automatic objects in the reverse order of their
  declaration, which is the order of the list.
\<close>

type_synonym 's scope = "'s Defer list \<times> 's"

definition DEFER :: "('s \<Rightarrow> 's) \<Rightarrow> 's scope \<Rightarrow> 's scope" where
  "DEFER func sc =
     (case sc of (autos, s) \<Rightarrow>
        (case make_defer func s of (d, s') \<Rightarrow> (d # autos, s')))"

definition scope_exit :: "'s scope \<Rightarrow> 's" where
  "scope_exit sc = (case sc of (autos, s) \<Rightarrow> fold Defer_dtor autos s)"

text \<open>
  To observe which actions run and in what order, the program state is a log and
  the action registered under the name \<open>a\<close> appends \<open>a\<close> to it.
\<close>

definition log_action :: "'a \<Rightarrow> 'a list \<Rightarrow> 'a list" where
  "log_action a l = l @ [a]"

subsection \<open>\<^verbatim>\<open>xrange_t\<close> and \<^verbatim>\<open>xrange\<close>\<close>

text \<open>
  \<^verbatim>\<open>
  template <typename INT>
  struct xrange_t {
      const INT _begin, _end;
      const int64_t _step;
      struct iterator {
          const xrange_t *_xrange;
          INT i;
          iterator &operator++() { i += _xrange->_step; return *this; }
          INT operator*() { return i; }
          bool operator==(const iterator &rhs) const {
              return _xrange == rhs._xrange &&
                     (i == rhs.i || (i >= _xrange->_end && rhs.i >= _xrange->_end));
          }
          bool operator!=(const iterator &rhs) const { return !(*this == rhs); }
      };
      iterator begin() const { return iterator{this, _begin}; }
      iterator end() const { return iterator{this, _end}; }
  };
  \<close>
  The template is instantiated at \<^verbatim>\<open>int64_t\<close> and at \<^verbatim>\<open>uint64_t\<close> only. The
  instance is the field \<open>r_INT\<close> of the range; the values are 64-bit words in both, read with
  \<open>sint\<close> in the first and unsigned in the second. The range is immutable, so the
  pointer \<^verbatim>\<open>_xrange\<close> is modelled by the range it points to.
\<close>

datatype INT_type = int64_t | uint64_t

record xrange_t =
  r_INT :: INT_type
  r_begin :: "64 word"
  r_end :: "64 word"
  r_step :: "64 word"

record iterator =
  it_xrange :: xrange_t
  it_i :: "64 word"

text \<open>\<^verbatim>\<open>a >= b\<close> at type \<^verbatim>\<open>INT\<close>.\<close>

definition INT_ge :: "INT_type \<Rightarrow> 64 word \<Rightarrow> 64 word \<Rightarrow> bool" where
  "INT_ge T a b = (case T of int64_t \<Rightarrow> sint b \<le> sint a | uint64_t \<Rightarrow> b \<le> a)"

text \<open>
  \<^verbatim>\<open>i += _xrange->_step\<close>: at \<^verbatim>\<open>uint64_t\<close> the step is converted to \<^verbatim>\<open>uint64_t\<close>
  and the sum wraps; at \<^verbatim>\<open>int64_t\<close> a sum outside the type is undefined behaviour,
  which is the error \<open>SignedOverflow\<close>.
\<close>

datatype error = SignedOverflow

definition iterator_inc :: "iterator \<Rightarrow> error + iterator" where
  "iterator_inc it =
     (case r_INT (it_xrange it) of
        uint64_t \<Rightarrow> Inr (it\<lparr>it_i := it_i it + r_step (it_xrange it)\<rparr>)
      | int64_t \<Rightarrow>
          (if - (2 ^ 63) \<le> sint (it_i it) + sint (r_step (it_xrange it)) \<and>
              sint (it_i it) + sint (r_step (it_xrange it)) < 2 ^ 63
           then Inr (it\<lparr>it_i := it_i it + r_step (it_xrange it)\<rparr>)
           else Inl SignedOverflow))"

definition iterator_deref :: "iterator \<Rightarrow> 64 word" where
  "iterator_deref it = it_i it"

definition iterator_eq :: "iterator \<Rightarrow> iterator \<Rightarrow> bool" where
  "iterator_eq it rhs =
     (it_xrange it = it_xrange rhs \<and>
      (it_i it = it_i rhs \<or>
       (INT_ge (r_INT (it_xrange it)) (it_i it) (r_end (it_xrange it)) \<and>
        INT_ge (r_INT (it_xrange it)) (it_i rhs) (r_end (it_xrange it)))))"

definition iterator_ne :: "iterator \<Rightarrow> iterator \<Rightarrow> bool" where
  "iterator_ne it rhs = (\<not> iterator_eq it rhs)"

definition xrange_begin :: "xrange_t \<Rightarrow> iterator" where
  "xrange_begin r = \<lparr>it_xrange = r, it_i = r_begin r\<rparr>"

definition xrange_end :: "xrange_t \<Rightarrow> iterator" where
  "xrange_end r = \<lparr>it_xrange = r, it_i = r_end r\<rparr>"

text \<open>
  \<^verbatim>\<open>
  template <typename T, ENABLE_IF(std::is_signed<T>::value)>
  xrange_t<int64_t> xrange(T begin, T end, int64_t step = 1) {
      return xrange_t<int64_t>{begin, end, step};
  }
  template <typename T, ENABLE_IF(std::is_signed<T>::value)>
  xrange_t<int64_t> xrange(T end) { return xrange<T>(0, end); }
  \<close>
  and the same two at \<^verbatim>\<open>uint64_t\<close> for an unsigned \<^verbatim>\<open>T\<close>. The first argument of the
  model is the instance that the signedness of \<^verbatim>\<open>T\<close> selects; \<open>xrange2\<close> is the call
  with the default step and \<open>xrange1\<close> the overload with one argument.
\<close>

definition xrange :: "INT_type \<Rightarrow> 64 word \<Rightarrow> 64 word \<Rightarrow> 64 word \<Rightarrow> xrange_t" where
  "xrange T b e step = \<lparr>r_INT = T, r_begin = b, r_end = e, r_step = step\<rparr>"

definition xrange2 :: "INT_type \<Rightarrow> 64 word \<Rightarrow> 64 word \<Rightarrow> xrange_t" where
  "xrange2 T b e = xrange T b e 1"

definition xrange1 :: "INT_type \<Rightarrow> 64 word \<Rightarrow> xrange_t" where
  "xrange1 T e = xrange2 T 0 e"

text \<open>
  The range-based loop \<^verbatim>\<open>for (auto x : r) body(x)\<close> is
  \<^verbatim>\<open>for (auto it = r.begin(), e = r.end(); it != e; ++it) { auto x = *it; body(x); }\<close>.
  The body here appends \<open>x\<close> to the list of the values seen. The loop runs forever
  on some ranges (a step of 0 before the end), so it is a partial function: \<open>None\<close>
  is a loop that does not return.
\<close>

partial_function (option) for_loop ::
  "iterator \<Rightarrow> iterator \<Rightarrow> 64 word list \<Rightarrow> (error + 64 word list) option" where
  "for_loop it e seen =
     (if iterator_ne it e
      then (case iterator_inc it of
              Inl err \<Rightarrow> Some (Inl err)
            | Inr it' \<Rightarrow> for_loop it' e (seen @ [iterator_deref it]))
      else Some (Inr seen))"

declare for_loop.simps [code]

definition for_range :: "xrange_t \<Rightarrow> (error + 64 word list) option" where
  "for_range r = for_loop (xrange_begin r) (xrange_end r) []"

text \<open>
  To state what a traversal yields, the cursor is read as an integer: \<open>INT_val\<close> is
  the value of a word at the instance, \<open>INT_max\<close> the largest value of the instance,
  and \<open>steps c e d\<close> the number of terms of the progression \<open>c, c + d, c + 2 * d, \<dots>\<close>
  that lie below \<open>e\<close>, for a positive \<open>d\<close>.
\<close>

definition INT_val :: "INT_type \<Rightarrow> 64 word \<Rightarrow> int" where
  "INT_val T w = (case T of int64_t \<Rightarrow> sint w | uint64_t \<Rightarrow> uint w)"

definition INT_max :: "INT_type \<Rightarrow> int" where
  "INT_max T = (case T of int64_t \<Rightarrow> 2 ^ 63 - 1 | uint64_t \<Rightarrow> 2 ^ 64 - 1)"

definition steps :: "int \<Rightarrow> int \<Rightarrow> int \<Rightarrow> nat" where
  "steps c e d = nat ((e - c + d - 1) div d)"

subsection \<open>\<^verbatim>\<open>OwnedPtr_Base\<close> and \<^verbatim>\<open>OwnedPtr\<close>\<close>

text \<open>
  \<^verbatim>\<open>
  class OwnedPtr_Base {
  protected:
      void *m_ptr;
      OwnedPtr_Base(void *ptr, bool ownership) {
          m_ptr = (void *)((uint64_t)ptr & (uint64_t)ownership);
      }
      const static uint64_t mask = 1;
      void *get() { return (void *)((uint64_t)m_ptr & ~mask); }
      bool owned() { return (uint64_t)m_ptr & mask; }
  };
  \<close>
  The conversion \<^verbatim>\<open>(uint64_t)ownership\<close> of a \<^verbatim>\<open>bool\<close> is 0 or 1 (\<open>of_bool\<close>); the
  conversion of a \<^verbatim>\<open>uint64_t\<close> to \<^verbatim>\<open>bool\<close> in \<^verbatim>\<open>owned\<close> is the test against 0.
\<close>

record OwnedPtr_Base =
  m_ptr :: uint64_t

definition OwnedPtr_mask :: uint64_t where
  "OwnedPtr_mask = 1"

definition OwnedPtr_Base_ctor :: "uint64_t \<Rightarrow> bool \<Rightarrow> OwnedPtr_Base" where
  "OwnedPtr_Base_ctor ptr ownership = \<lparr>m_ptr = ptr AND of_bool ownership\<rparr>"

definition get :: "OwnedPtr_Base \<Rightarrow> uint64_t" where
  "get p = m_ptr p AND NOT OwnedPtr_mask"

definition owned :: "OwnedPtr_Base \<Rightarrow> bool" where
  "owned p = (m_ptr p AND OwnedPtr_mask \<noteq> 0)"

text \<open>
  \<^verbatim>\<open>
  template <typename T>
  class OwnedPtr : OwnedPtr_Base {
  public:
      OwnedPtr(T *ptr, bool ownership) : OwnedPtr_Base(ptr, ownership) {}
      ~OwnedPtr() { if (owned()) delete (T *)get(); }
      T *operator->() { return (T *)get(); }
      operator T *() { return (T *)get(); }
  };
  \<close>
  The effect of \<^verbatim>\<open>delete\<close> is recorded in a log: the list of the addresses it was
  called on, in order. The destructor takes the log and returns the new one.
\<close>

definition OwnedPtr :: "uint64_t \<Rightarrow> bool \<Rightarrow> OwnedPtr_Base" where
  "OwnedPtr ptr ownership = OwnedPtr_Base_ctor ptr ownership"

definition OwnedPtr_dtor :: "OwnedPtr_Base \<Rightarrow> uint64_t list \<Rightarrow> uint64_t list" where
  "OwnedPtr_dtor p deleted = (if owned p then deleted @ [get p] else deleted)"

definition OwnedPtr_arrow :: "OwnedPtr_Base \<Rightarrow> uint64_t" where
  "OwnedPtr_arrow p = get p"

definition OwnedPtr_conv :: "OwnedPtr_Base \<Rightarrow> uint64_t" where
  "OwnedPtr_conv p = get p"

subsection \<open>Alignment\<close>

text \<open>
  \<^verbatim>\<open>
  inline uint64_t alingn_down(uint64_t x, uint64_t alignment) {
      return x & ~(alignment - 1);
  }
  inline uint64_t alingn_up(uint64_t x, uint64_t alignment) {
      return alingn_down(x + alignment - 1, alignment);
  }
  \<close>
\<close>

definition alingn_down :: "uint64_t \<Rightarrow> uint64_t \<Rightarrow> uint64_t" where
  "alingn_down x alignment = x AND NOT (alignment - 1)"

definition alingn_up :: "uint64_t \<Rightarrow> uint64_t \<Rightarrow> uint64_t" where
  "alingn_up x alignment = alingn_down (x + alignment - 1) alignment"

subsection \<open>\<^verbatim>\<open>is_power_of_2\<close>\<close>

text \<open>
  \<^verbatim>\<open>
  inline bool is_power_of_2(uint64_t x) { return __builtin_popcountl(x) == 1; }
  \<close>
  \<^verbatim>\<open>__builtin_popcountl\<close> is the compiler's: it returns the number of 1-bits of its
  \<^verbatim>\<open>unsigned long\<close> argument, which has 64 bits on the LP64 platforms overlaybd builds
  for.
\<close>

definition builtin_popcountl :: "uint64_t \<Rightarrow> nat" where
  "builtin_popcountl x = length (filter (bit x) [0..<64])"

definition is_power_of_2 :: "uint64_t \<Rightarrow> bool" where
  "is_power_of_2 x = (builtin_popcountl x = 1)"

section \<open>Auxiliary facts\<close>

lemmas xrange_defs =
  for_range_def xrange_def xrange1_def xrange2_def xrange_begin_def xrange_end_def
  iterator_ne_def iterator_eq_def iterator_inc_def iterator_deref_def INT_ge_def

lemmas OwnedPtr_defs =
  OwnedPtr_def OwnedPtr_Base_ctor_def get_def owned_def OwnedPtr_mask_def
  OwnedPtr_dtor_def OwnedPtr_arrow_def OwnedPtr_conv_def

subsection \<open>Scopes of deferred actions\<close>

lemma fold_DEFER:
  "fold DEFER fs (autos, s) = (map (\<lambda>f. \<lparr>m_func = f\<rparr>) (rev fs) @ autos, s)"
  by (induction fs arbitrary: autos) (simp_all add: DEFER_def make_defer_def Defer_ctor_def)

lemma fold_log_action: "fold (\<lambda>f. f) (map log_action xs) l = l @ xs"
  by (induction xs arbitrary: l) (simp_all add: log_action_def)

text \<open>Leaving a scope runs the registered actions, the last registered first.\<close>

lemma scope_exit_fold: "scope_exit (fold DEFER fs ([], s)) = fold (\<lambda>f. f) (rev fs) s"
proof -
  have eq: "Defer_dtor \<circ> (\<lambda>f. \<lparr>m_func = f\<rparr>) = (\<lambda>f. f)"
    by (rule ext) (simp add: Defer_dtor_def fun_eq_iff)
  show ?thesis
    by (simp add: fold_DEFER scope_exit_def fold_map eq)
qed

subsection \<open>Ascending traversals\<close>

lemma INT_ge_val: "INT_ge T a b = (INT_val T b \<le> INT_val T a)"
  by (cases T) (simp_all add: INT_ge_def INT_val_def word_le_def)

lemma INT_val_inj: "(INT_val T a = INT_val T b) = (a = b)"
proof (cases T)
  case int64_t
  then show ?thesis
    using word_eq_iff_signed [where ?'a = int, of a b] by (auto simp: INT_val_def)
next
  case uint64_t
  then show ?thesis
    using word_uint_eq_iff [of a b] by (auto simp: INT_val_def)
qed

lemma INT_val_le_max: "INT_val T w \<le> INT_max T"
  using sint_lt [of w] uint_lt2p [of w] by (cases T) (simp_all add: INT_val_def INT_max_def)

lemma sint_pos_uint: "0 < sint (s::64 word) \<Longrightarrow> uint s = sint s"
proof -
  assume p: "0 < sint s"
  have lt: "sint s < 2 ^ 64" using sint_lt [of s] by simp
  have "uint s = uint (word_of_int (sint s) :: 64 word)" by simp
  also have "\<dots> = take_bit 64 (sint s)" by (simp add: uint_word_of_int_eq del: of_int_sint)
  also have "\<dots> = sint s"
    using p lt by (simp add: take_bit_int_eq_self)
  finally show ?thesis .
qed

lemma INT_val_add:
  assumes "0 < sint s" "INT_val T c + sint s \<le> INT_max T"
  shows "INT_val T (c + s) = INT_val T c + sint s"
proof (cases T)
  case int64_t
  have "- (2 ^ 63) \<le> sint c" using sint_ge [of c] by simp
  with assms int64_t have "- (2 ^ 63) \<le> sint c + sint s" "sint c + sint s < 2 ^ 63"
    by (simp_all add: INT_val_def INT_max_def)
  then show ?thesis using int64_t
    by (simp add: INT_val_def sint_word_add signed_take_bit_int_eq_self)
next
  case uint64_t
  with assms have "uint c + uint s < 2 ^ 64"
    by (simp add: INT_val_def INT_max_def sint_pos_uint)
  then have "uint (c + s) = uint c + uint s"
    using uint_add_lem [of c s] by simp
  with assms uint64_t show ?thesis by (simp add: INT_val_def sint_pos_uint)
qed

lemma iterator_inc_ok:
  assumes "0 < sint (r_step r)" "INT_val (r_INT r) c + sint (r_step r) \<le> INT_max (r_INT r)"
  shows "iterator_inc \<lparr>it_xrange = r, it_i = c\<rparr> = Inr \<lparr>it_xrange = r, it_i = c + r_step r\<rparr>"
proof (cases "r_INT r")
  case int64_t
  have "- (2 ^ 63) \<le> sint c" using sint_ge [of c] by simp
  with assms int64_t show ?thesis
    by (simp add: iterator_inc_def INT_val_def INT_max_def)
next
  case uint64_t
  then show ?thesis by (simp add: iterator_inc_def)
qed

lemma steps_0: "0 < d \<Longrightarrow> (steps c e d = 0) = (e \<le> c)"
proof -
  assume d: "0 < d"
  have "(0 < (e - c + d - 1) div d) = (d \<le> e - c + d - 1)"
    using d by (rule pos_imp_zdiv_pos_iff)
  then show ?thesis by (auto simp: steps_def)
qed

lemma steps_Suc: "0 < d \<Longrightarrow> c < e \<Longrightarrow> steps c e d = Suc (steps (c + d) e d)"
proof -
  assume d: "0 < d" and c: "c < e"
  have "(e - c + d - 1) div d = (e - (c + d) + d - 1) div d + 1"
    using d div_add_self2 [of d "e - c - 1"] by (simp add: algebra_simps)
  moreover have "0 \<le> (e - (c + d) + d - 1) div d"
    using d c by (simp add: pos_imp_zdiv_nonneg_iff)
  ultimately show ?thesis by (simp add: steps_def nat_add_distrib)
qed


text \<open>
  A cursor with \<open>n\<close> terms of the progression still below the end can be advanced by
  the step when the cursor that follows the last of them, at \<open>n\<close> steps from here,
  is a value of the instance.
\<close>

lemma first_step_fits:
  assumes d: "0 < d" and fits: "c + int (Suc n) * d \<le> m"
  shows "c + d \<le> m"
proof -
  have "0 \<le> int n * d" using d by simp
  moreover have "int (Suc n) * d = d + int n * d" by (simp add: algebra_simps)
  ultimately show ?thesis using fits by simp
qed

lemma for_loop_ascending:
  assumes d: "0 < sint (r_step r)"
  shows "steps (INT_val (r_INT r) c) (INT_val (r_INT r) (r_end r)) (sint (r_step r)) = n \<Longrightarrow>
    INT_val (r_INT r) c + int n * sint (r_step r) \<le> INT_max (r_INT r) \<Longrightarrow>
    for_loop \<lparr>it_xrange = r, it_i = c\<rparr> (xrange_end r) seen =
      Some (Inr (seen @ map (\<lambda>k. c + of_nat k * r_step r) [0..<n]))"
proof (induction n arbitrary: c seen)
  case 0
  then have "INT_val (r_INT r) (r_end r) \<le> INT_val (r_INT r) c"
    using d by (simp add: steps_0)
  then have "iterator_eq \<lparr>it_xrange = r, it_i = c\<rparr> (xrange_end r)"
    by (simp add: iterator_eq_def xrange_end_def INT_ge_val)
  then show ?case
    by (subst for_loop.simps) (simp add: iterator_ne_def)
next
  case (Suc n)
  have lt: "INT_val (r_INT r) c < INT_val (r_INT r) (r_end r)"
  proof (rule ccontr)
    assume "\<not> ?thesis"
    then have "steps (INT_val (r_INT r) c) (INT_val (r_INT r) (r_end r)) (sint (r_step r)) = 0"
      using d by (simp add: steps_0)
    with Suc.prems show False by simp
  qed
  then have ne: "iterator_ne \<lparr>it_xrange = r, it_i = c\<rparr> (xrange_end r)"
    by (auto simp: iterator_ne_def iterator_eq_def xrange_end_def INT_ge_val)
  have fits: "INT_val (r_INT r) c + sint (r_step r) \<le> INT_max (r_INT r)"
    using d Suc.prems(2) by (rule first_step_fits)
  have inc: "iterator_inc \<lparr>it_xrange = r, it_i = c\<rparr> = Inr \<lparr>it_xrange = r, it_i = c + r_step r\<rparr>"
    using d fits by (rule iterator_inc_ok)
  have val: "INT_val (r_INT r) (c + r_step r) = INT_val (r_INT r) c + sint (r_step r)"
    using d fits by (rule INT_val_add)
  have n': "steps (INT_val (r_INT r) (c + r_step r)) (INT_val (r_INT r) (r_end r)) (sint (r_step r)) = n"
    using Suc.prems(1) steps_Suc [OF d lt] by (simp add: val)
  have fits': "INT_val (r_INT r) (c + r_step r) + int n * sint (r_step r) \<le> INT_max (r_INT r)"
    using Suc.prems(2) by (simp add: val algebra_simps)
  from n' fits'
  have "for_loop \<lparr>it_xrange = r, it_i = c + r_step r\<rparr> (xrange_end r) (seen @ [c]) =
      Some (Inr ((seen @ [c]) @ map (\<lambda>k. c + r_step r + of_nat k * r_step r) [0..<n]))"
    by (rule Suc.IH)
  moreover have "map (\<lambda>k. c + of_nat k * r_step r) [0..<Suc n] =
      c # map (\<lambda>k. c + r_step r + of_nat k * r_step r) [0..<n]"
    by (simp add: map_upt_Suc algebra_simps del: upt_Suc)
  ultimately show ?case
    by (subst for_loop.simps) (simp add: ne inc iterator_deref_def del: upt_Suc)
qed

lemma INT_val_progression:
  assumes d: "0 < sint s"
  shows "k < steps (INT_val T c) (INT_val T e) (sint s) \<Longrightarrow>
     INT_val T c + int (steps (INT_val T c) (INT_val T e) (sint s)) * sint s \<le> INT_max T \<Longrightarrow>
     INT_val T (c + of_nat k * s) = INT_val T c + int k * sint s \<and>
     INT_val T (c + of_nat k * s) < INT_val T e"
proof (induction k arbitrary: c)
  case 0
  then have "INT_val T c < INT_val T e"
    using d steps_0 [OF d, of "INT_val T c" "INT_val T e"] by auto
  then show ?case by simp
next
  case (Suc k)
  then have lt: "INT_val T c < INT_val T e"
    using d steps_0 [OF d, of "INT_val T c" "INT_val T e"] by auto
  have n: "steps (INT_val T c) (INT_val T e) (sint s) =
      Suc (steps (INT_val T c + sint s) (INT_val T e) (sint s))"
    using d lt by (rule steps_Suc)
  have fits: "INT_val T c + sint s \<le> INT_max T"
    using d Suc.prems(2) [unfolded n] by (rule first_step_fits)
  have val: "INT_val T (c + s) = INT_val T c + sint s"
    using d fits by (rule INT_val_add)
  from Suc.prems(1) n have k: "k < steps (INT_val T (c + s)) (INT_val T e) (sint s)"
    by (simp add: val)
  have fits': "INT_val T (c + s) +
      int (steps (INT_val T (c + s)) (INT_val T e) (sint s)) * sint s \<le> INT_max T"
    using Suc.prems(2) [unfolded n] by (simp add: val algebra_simps)
  from k fits'
  have "INT_val T (c + s + of_nat k * s) = INT_val T (c + s) + int k * sint s \<and>
     INT_val T (c + s + of_nat k * s) < INT_val T e"
    by (rule Suc.IH)
  moreover have "c + s + of_nat k * s = c + of_nat (Suc k) * s" by (simp add: algebra_simps)
  ultimately show ?case by (simp add: val algebra_simps)
qed

text \<open>
  A traversal with a positive step returns, and yields the cursor's values below the
  end, when the cursor that follows the last of them is a value of the instance.
\<close>

lemma for_range_ascending:
  assumes "0 < sint step"
    and "INT_val T b + int (steps (INT_val T b) (INT_val T e) (sint step)) * sint step
      \<le> INT_max T"
  shows "for_range (xrange T b e step) =
    Some (Inr (map (\<lambda>k. b + of_nat k * step)
      [0..<steps (INT_val T b) (INT_val T e) (sint step)]))"
  using for_loop_ascending [of "xrange T b e step" b _ "[]"] assms
  by (simp add: for_range_def xrange_begin_def xrange_def)

text \<open>With the step 1 that cursor is the end, or begin when begin is at or past the end.\<close>

lemma unit_step_fits:
  "INT_val T b + int (steps (INT_val T b) (INT_val T e) (sint (1::64 word))) * sint (1::64 word)
     \<le> INT_max T"
  using INT_val_le_max [of T b] INT_val_le_max [of T e] by (simp add: steps_def)

subsection \<open>Traversals that wrap around\<close>

text \<open>
  At \<^verbatim>\<open>uint64_t\<close> with the end \<open>2 ^ 64 - 1\<close> (the word \<open>- 1\<close>) and the step 2, an even
  cursor is never at the end nor past it, and the next cursor is even again: the loop
  does not return.
\<close>

lemma for_loop_even_never_returns:
  assumes ret: "for_loop it e seen = Some y"
  shows "\<not> (it_xrange it = xrange uint64_t b (- 1) 2 \<and>
            e = xrange_end (xrange uint64_t b (- 1) 2) \<and> even (it_i it))"
proof -
  let ?r = "xrange uint64_t b (- 1) 2"
  let ?P = "\<lambda>it e (seen :: 64 word list) (y :: error + 64 word list).
      \<not> (it_xrange it = ?r \<and> e = xrange_end ?r \<and> even (it_i it))"
  have "?P it e seen y"
  proof (rule for_loop.raw_induct [where P = ?P, OF _ ret])
    fix f :: "iterator \<Rightarrow> iterator \<Rightarrow> 64 word list \<Rightarrow> (error + 64 word list) option"
    fix it e seen y
    assume IH: "\<And>it e seen y. f it e seen = Some y \<Longrightarrow> ?P it e seen y"
    assume body: "(if iterator_ne it e
        then case iterator_inc it of Inl err \<Rightarrow> Some (Inl err)
             | Inr it' \<Rightarrow> f it' e (seen @ [iterator_deref it])
        else Some (Inr seen)) = Some y"
    show "?P it e seen y"
    proof
      assume inv: "it_xrange it = ?r \<and> e = xrange_end ?r \<and> even (it_i it)"
      then have odd_end: "it_i it \<noteq> - 1" by auto
      have "\<not> (- 1 \<le> it_i it)"
      proof
        assume "- 1 \<le> it_i it"
        moreover have "it_i it \<le> - 1" by simp
        ultimately have "it_i it = - 1" by simp
        with odd_end show False by simp
      qed
      with inv odd_end have ne: "iterator_ne it e"
        by (simp add: iterator_ne_def iterator_eq_def xrange_end_def xrange_def INT_ge_def)
      from inv have inc: "iterator_inc it = Inr (it\<lparr>it_i := it_i it + 2\<rparr>)"
        by (simp add: iterator_inc_def xrange_def)
      from body ne inc
      have "f (it\<lparr>it_i := it_i it + 2\<rparr>) e (seen @ [iterator_deref it]) = Some y"
        by simp
      then have "?P (it\<lparr>it_i := it_i it + 2\<rparr>) e (seen @ [iterator_deref it]) y"
        by (rule IH)
      with inv show False by simp
    qed
  qed
  then show ?thesis .
qed

lemma for_range_even_diverges: "even b \<Longrightarrow> for_range (xrange uint64_t b (- 1) 2) = None"
proof (rule ccontr)
  assume e: "even b" and "for_range (xrange uint64_t b (- 1) 2) \<noteq> None"
  then obtain y where "for_loop (xrange_begin (xrange uint64_t b (- 1) 2))
      (xrange_end (xrange uint64_t b (- 1) 2)) [] = Some y"
    by (auto simp: for_range_def)
  from for_loop_even_never_returns [OF this, of b] e show False
    by (simp add: xrange_begin_def xrange_def)
qed

subsection \<open>Population count\<close>

lemma popcount_card: "builtin_popcountl x = card {n. bit x n}"
proof -
  have "{n. bit x n} \<inter> set [0..<64] = {n. bit x n}"
    by (auto dest: bit_imp_le_length)
  then show ?thesis
    by (simp add: builtin_popcountl_def distinct_length_filter del: upt_rec_numeral)
qed

lemma bits_singleton_iff: "({n. bit (x::64 word) n} = {k}) = (k < 64 \<and> x = 2 ^ k)"
proof
  assume a: "{n. bit x n} = {k}"
  then have "bit x k" by blast
  then have k: "k < 64" by (auto dest: bit_imp_le_length)
  have "x = 2 ^ k"
  proof (rule bit_word_eqI)
    fix n assume "n < LENGTH(64)"
    have "bit x n = (n = k)" using a by blast
    then show "bit x n = bit ((2::64 word) ^ k) n" using k by (auto simp: bit_exp_iff)
  qed
  with k show "k < 64 \<and> x = 2 ^ k" by simp
next
  assume "k < 64 \<and> x = 2 ^ k"
  then show "{n. bit x n} = {k}" by (auto simp: bit_exp_iff)
qed

lemma popcount_one_iff: "(builtin_popcountl x = 1) = (\<exists>k. k < 64 \<and> x = 2 ^ k)"
  by (simp add: popcount_card card_1_singleton_iff bits_singleton_iff)

subsection \<open>Rounding down to a power of two\<close>

lemma alingn_down_exp: "alingn_down x (2 ^ k) = push_bit k (drop_bit k x)"
  by (rule bit_word_eqI) (auto simp: alingn_down_def bit_simps simp flip: mask_eq_decr_exp)

lemma alingn_down_le: "unat (alingn_down x p) \<le> unat x"
  unfolding alingn_down_def by (rule word_and_le2 [THEN word_le_nat_alt [THEN iffD1]])

lemma alingn_down_gt: "unat x < unat (alingn_down x (2 ^ k)) + 2 ^ k"
proof -
  have "x = alingn_down x (2 ^ k) + take_bit k x"
    by (simp add: alingn_down_exp bits_ident)
  then have "unat x = unat (alingn_down x (2 ^ k) + take_bit k x)" by simp
  also have "\<dots> \<le> unat (alingn_down x (2 ^ k)) + unat (take_bit k x)"
    by (simp add: unat_word_ariths)
  also have "unat (take_bit k x) < 2 ^ k"
    by (simp add: unsigned_take_bit_eq)
  finally show ?thesis by simp
qed

lemma unat_exp_64:
  assumes k: "k < 64" shows "unat ((2::64 word) ^ k) = 2 ^ k"
proof -
  have "(2::64 word) ^ k \<noteq> 0" using k by simp
  then have "0 < (2::64 word) ^ k" by (simp add: word_gt_0)
  then have "uint ((2::64 word) ^ k) = 2 ^ k" by (rule uint_2p)
  then show ?thesis by (simp add: unat_eq_nat_uint nat_power_eq)
qed

subsection \<open>The address a tagged pointer exposes\<close>

lemma get_bit0: "\<not> bit (get p) 0"
  by (simp add: get_def OwnedPtr_mask_def bit_simps)

lemma get_and_1: "get p AND 1 = 0"
  by (simp add: get_def OwnedPtr_mask_def and.assoc)

lemma get_unat_even: "even (unat (get p))"
proof -
  have "\<not> bit (unat (get p)) 0"
    by (simp add: bit_unsigned_iff get_bit0)
  then show ?thesis by (simp add: bit_0)
qed

section \<open>The claims\<close>

subsection \<open>The tagged pointer\<close>

text \<open>
  Claim C1: for an even address \<open>a\<close> and a flag \<open>b\<close>, an \<^verbatim>\<open>OwnedPtr\<close> constructed from
  \<open>(a, b)\<close> gives back \<open>a\<close> from \<^verbatim>\<open>get\<close>, \<^verbatim>\<open>operator->\<close> and the conversion, and \<open>b\<close>
  from \<^verbatim>\<open>owned\<close>.

  The constructor combines the address and the flag with \<^verbatim>\<open>&\<close>, where packing the flag
  into the low bit needs \<^verbatim>\<open>|\<close>: the stored word is \<open>ptr AND 1\<close> or \<open>ptr AND 0\<close>. At the
  even address 4096 with the flag set, the address read back is 0 and the flag read back
  is false; with the flag clear the address read back is 0 as well.
\<close>

theorem OwnedPtr_roundtrip_fails:
  "get (OwnedPtr 4096 True) = 0 \<and> owned (OwnedPtr 4096 True) = False \<and>
   OwnedPtr_arrow (OwnedPtr 4096 True) = 0 \<and> OwnedPtr_conv (OwnedPtr 4096 True) = 0 \<and>
   get (OwnedPtr 4096 False) = 0"
  by (simp add: OwnedPtr_defs)

text \<open>
  Claim C2: destroying an \<^verbatim>\<open>OwnedPtr\<close> constructed from an even address \<open>a\<close> calls
  \<^verbatim>\<open>delete\<close> exactly once on \<open>a\<close> when the flag was set, and never when it was clear.

  With the stored word of the constructor above, \<^verbatim>\<open>owned()\<close> is false for every even
  address: at the address 4096 the destructor leaves the log of deletions empty with the
  flag set, as it does with the flag clear.
\<close>

theorem OwnedPtr_dtor_never_deletes:
  "OwnedPtr_dtor (OwnedPtr 4096 True) [] = [] \<and> OwnedPtr_dtor (OwnedPtr 4096 False) [] = []"
  by (simp add: OwnedPtr_defs)

text \<open>
  Claim C10: whatever pointer and flag an \<^verbatim>\<open>OwnedPtr\<close> was constructed from, the
  address that \<^verbatim>\<open>get\<close>, \<^verbatim>\<open>operator->\<close> and the conversion to \<^verbatim>\<open>T*\<close> return has its low
  bit clear: it is even. This holds for every stored word \<open>m_ptr\<close>, hence for every
  constructed pointer.
\<close>

theorem get_always_even:
  "get p AND 1 = 0 \<and> even (unat (get p)) \<and>
   OwnedPtr_arrow p AND 1 = 0 \<and> even (unat (OwnedPtr_arrow p)) \<and>
   OwnedPtr_conv p AND 1 = 0 \<and> even (unat (OwnedPtr_conv p)) \<and>
   get (OwnedPtr ptr ownership) AND 1 = 0 \<and> even (unat (get (OwnedPtr ptr ownership)))"
  by (simp add: get_and_1 get_unat_even OwnedPtr_arrow_def OwnedPtr_conv_def)

subsection \<open>Deferred actions\<close>

text \<open>
  Claim C3: for every sequence of registrations \<^verbatim>\<open>DEFER\<close> in one scope, leaving the
  scope invokes each registered action exactly once, in the reverse order of
  registration; copying a handle invokes nothing (and a handle cannot be assigned).

  The actions \<open>acts\<close> are registered in order, each appending its name to the log \<open>l\<close>.
  After the scope is left the log is \<open>l\<close> followed by the names in reverse order, each
  registration once. Before that the log is unchanged: neither the registrations, nor
  \<^verbatim>\<open>make_defer\<close>, nor a copy change the state, and the copy holds the same action.
\<close>

theorem defer_reverse_order:
  "scope_exit (fold DEFER (map log_action acts) ([], l)) = l @ rev acts \<and>
   snd (fold DEFER (map log_action acts) ([], l)) = l \<and>
   snd (make_defer f s) = s \<and>
   snd (Defer_copy d s) = s \<and>
   Defer_dtor (fst (Defer_copy d s)) = Defer_dtor d"
proof -
  have a: "scope_exit (fold DEFER (map log_action acts) ([], l)) = l @ rev acts"
    by (simp add: scope_exit_fold fold_log_action rev_map)
  have b: "snd (fold DEFER (map log_action acts) ([], l)) = l"
    by (simp add: fold_DEFER)
  have c: "snd (make_defer f s) = s"
    by (simp add: make_defer_def Defer_ctor_def)
  have d: "snd (Defer_copy d s) = s \<and> Defer_dtor (fst (Defer_copy d s)) = Defer_dtor d"
    by (simp add: Defer_copy_def Defer_dtor_def fun_eq_iff)
  from a b c d show ?thesis by simp
qed

text \<open>
  Claim C9: the conversion to \<^verbatim>\<open>bool\<close> of a handle is true for every handle, whatever
  action it stores, and so for every handle that \<^verbatim>\<open>make_defer\<close> returns; it leaves the
  state as it is.
\<close>

theorem Defer_bool_true:
  "fst (Defer_bool (fst (make_defer func s)) s') = True \<and> fst (Defer_bool d s') = True \<and>
   snd (Defer_bool d s') = s'"
  by (simp add: Defer_bool_def)

subsection \<open>Ranges\<close>

text \<open>
  Claim C4: iterating \<^verbatim>\<open>xrange(8, 2, -2)\<close> yields 8, 6, 4: a negative step gives a
  descending traversal from begin towards end.

  \<^verbatim>\<open>operator==\<close> takes two cursors at or above \<^verbatim>\<open>_end\<close> for equal, whatever the sign of
  the step. The cursor of \<^verbatim>\<open>begin()\<close> is 8 and that of \<^verbatim>\<open>end()\<close> is 2, both at or above
  2, so the loop ends before its first iteration: the traversal is empty, at
  \<^verbatim>\<open>int64_t\<close> and at \<^verbatim>\<open>uint64_t\<close>.
\<close>

theorem xrange_descending_empty:
  "for_range (xrange int64_t 8 2 (- 2)) = Some (Inr []) \<and>
   for_range (xrange uint64_t 8 2 (- 2)) = Some (Inr []) \<and>
   iterator_eq (xrange_begin (xrange int64_t 8 2 (- 2))) (xrange_end (xrange int64_t 8 2 (- 2)))"
  by (simp add: xrange_defs for_loop.simps)

text \<open>
  Claim C5: for an ascending range whose step overshoots the end, the traversal still
  ends: \<^verbatim>\<open>xrange(3, 10, 4)\<close> yields exactly 3, 7 and stops, because the comparison with
  \<^verbatim>\<open>end()\<close> holds for a cursor at or past the end, not only for one equal to it.

  This holds when the cursor that first reaches or passes the end is a value of the
  instance: with \<open>n\<close> the number of terms of the progression below the end, when begin
  plus \<open>n\<close> times the step is at most the largest value of the instance. Then the
  traversal with a positive step returns. Any cursor whose value is at or above the
  end compares equal to \<^verbatim>\<open>end()\<close>, and the traversal of \<^verbatim>\<open>xrange(3, 10, 4)\<close> returns
  \<open>[3, 7]\<close> at both instances.
\<close>

theorem xrange_overshoot_terminates:
  "(0 < sint step \<and>
    INT_val T b + int (steps (INT_val T b) (INT_val T e) (sint step)) * sint step \<le> INT_max T \<longrightarrow>
      (\<exists>xs. for_range (xrange T b e step) = Some (Inr xs))) \<and>
   (INT_val (r_INT r) (r_end r) \<le> INT_val (r_INT r) c \<longrightarrow>
      iterator_eq \<lparr>it_xrange = r, it_i = c\<rparr> (xrange_end r)) \<and>
   for_range (xrange int64_t 3 10 4) = Some (Inr [3, 7]) \<and>
   for_range (xrange uint64_t 3 10 4) = Some (Inr [3, 7])"
proof -
  have a: "\<exists>xs. for_range (xrange T b e step) = Some (Inr xs)"
    if "0 < sint step"
      "INT_val T b + int (steps (INT_val T b) (INT_val T e) (sint step)) * sint step \<le> INT_max T"
    using that for_range_ascending [of step T b e] by blast
  have b: "iterator_eq \<lparr>it_xrange = r, it_i = c\<rparr> (xrange_end r)"
    if "INT_val (r_INT r) (r_end r) \<le> INT_val (r_INT r) c"
    using that by (simp add: iterator_eq_def xrange_end_def INT_ge_val)
  have c: "for_range (xrange int64_t 3 10 4) = Some (Inr [3, 7])"
    by (simp add: xrange_defs for_loop.simps)
  have d: "for_range (xrange uint64_t 3 10 4) = Some (Inr [3, 7])"
    by (simp add: xrange_defs for_loop.simps)
  from a b c d show ?thesis by simp
qed

theorem xrange_overshoot_terminates_witness:
  "0 < sint (4::64 word) \<and>
   steps (INT_val int64_t 3) (INT_val int64_t 10) (sint (4::64 word)) = 2 \<and>
   INT_val int64_t 3 + int (steps (INT_val int64_t 3) (INT_val int64_t 10) (sint (4::64 word)))
     * sint (4::64 word) \<le> INT_max int64_t \<and>
   (\<exists>xs. for_range (xrange int64_t 3 10 4) = Some (Inr xs)) \<and>
   INT_val int64_t 10 \<le> INT_val int64_t 11 \<and>
   iterator_eq \<lparr>it_xrange = xrange int64_t 3 10 4, it_i = 11\<rparr>
     (xrange_end (xrange int64_t 3 10 4))"
proof -
  have n: "steps (INT_val int64_t 3) (INT_val int64_t 10) (sint (4::64 word)) = 2"
    by (simp add: INT_val_def steps_def)
  have h: "0 < sint (4::64 word) \<and>
      INT_val int64_t 3 + int (steps (INT_val int64_t 3) (INT_val int64_t 10) (sint (4::64 word)))
        * sint (4::64 word) \<le> INT_max int64_t"
    unfolding n by (simp add: INT_val_def INT_max_def)
  have g: "INT_val (r_INT (xrange int64_t 3 10 4)) (r_end (xrange int64_t 3 10 4))
      \<le> INT_val (r_INT (xrange int64_t 3 10 4)) 11"
    by (simp add: INT_val_def xrange_def)
  have g': "INT_val int64_t 10 \<le> INT_val int64_t 11"
    by (simp add: INT_val_def)
  from n h g g' xrange_overshoot_terminates [of 4 int64_t 3 10 "xrange int64_t 3 10 4" 11]
  show ?thesis by blast
qed

text \<open>
  Without that condition the traversal need not end. At \<^verbatim>\<open>uint64_t\<close>, begin 0, end
  \<open>2 ^ 64 - 1\<close> and step 2 make an ascending range with a positive step that overshoots
  the end: the cursor runs over the even numbers up to \<open>2 ^ 64 - 2\<close>, the next
  increment wraps around to 0, and no cursor is ever at or past the end.
\<close>

theorem xrange_overshoot_wraps_forever:
  "(0 :: 64 word) < 18446744073709551615 \<and> 0 < sint (2 :: 64 word) \<and>
   for_range (xrange uint64_t 0 18446744073709551615 2) = None"
proof -
  have m: "(18446744073709551615 :: 64 word) = - 1" by simp
  have "for_range (xrange uint64_t 0 18446744073709551615 2) = None"
    unfolding m by (rule for_range_even_diverges) simp
  moreover have "(0 :: 64 word) < 18446744073709551615 \<and> 0 < sint (2 :: 64 word)" by simp
  ultimately show ?thesis by (simp only: simp_thms)
qed

text \<open>
  Claim C6: for an ascending range with a positive step, the traversal yields begin,
  begin + step, \<dots> up to but excluding end: \<^verbatim>\<open>xrange(0, 10)\<close> yields 0, 1, \<dots>, 9,
  \<^verbatim>\<open>xrange(2, 8, 2)\<close> yields 2, 4, 6, and \<^verbatim>\<open>xrange(end)\<close> yields what \<^verbatim>\<open>xrange(0, end)\<close>
  yields.

  This holds when the cursor that first reaches or passes the end is a value of the
  instance: with \<open>n = steps \<dots>\<close> the number of terms of the progression below the end,
  when begin plus \<open>n\<close> times the step is at most the largest value of the instance.
  Then the traversal with a positive step yields \<open>b + k * step\<close> for \<open>k\<close> below \<open>n\<close>;
  the value of the \<open>k\<close>-th is the value of begin plus \<open>k\<close> times the step, and it is
  below the end. With the default step 1 the condition always holds. The three
  examples are evaluated at both instances, and the overload with one argument builds
  the range that the call with begin 0 builds.
\<close>

theorem xrange_ascending:
  "(0 < sint step \<and>
    INT_val T b + int (steps (INT_val T b) (INT_val T e) (sint step)) * sint step \<le> INT_max T \<longrightarrow>
      for_range (xrange T b e step) =
        Some (Inr (map (\<lambda>k. b + of_nat k * step)
          [0..<steps (INT_val T b) (INT_val T e) (sint step)])) \<and>
      (\<forall>k. k < steps (INT_val T b) (INT_val T e) (sint step) \<longrightarrow>
         INT_val T (b + of_nat k * step) = INT_val T b + int k * sint step \<and>
         INT_val T (b + of_nat k * step) < INT_val T e)) \<and>
   for_range (xrange2 T b e) =
     Some (Inr (map (\<lambda>k. b + of_nat k) [0..<nat (INT_val T e - INT_val T b)])) \<and>
   for_range (xrange2 int64_t 0 10) = Some (Inr [0, 1, 2, 3, 4, 5, 6, 7, 8, 9]) \<and>
   for_range (xrange2 uint64_t 0 10) = Some (Inr [0, 1, 2, 3, 4, 5, 6, 7, 8, 9]) \<and>
   for_range (xrange int64_t 2 8 2) = Some (Inr [2, 4, 6]) \<and>
   for_range (xrange uint64_t 2 8 2) = Some (Inr [2, 4, 6]) \<and>
   xrange1 T e = xrange2 T 0 e \<and>
   for_range (xrange1 T e) = for_range (xrange2 T 0 e) \<and>
   for_range (xrange1 int64_t 10) = Some (Inr [0, 1, 2, 3, 4, 5, 6, 7, 8, 9]) \<and>
   for_range (xrange1 uint64_t 10) = Some (Inr [0, 1, 2, 3, 4, 5, 6, 7, 8, 9])"
proof -
  have gen: "for_range (xrange T b e step) =
        Some (Inr (map (\<lambda>k. b + of_nat k * step)
          [0..<steps (INT_val T b) (INT_val T e) (sint step)])) \<and>
      (\<forall>k. k < steps (INT_val T b) (INT_val T e) (sint step) \<longrightarrow>
         INT_val T (b + of_nat k * step) = INT_val T b + int k * sint step \<and>
         INT_val T (b + of_nat k * step) < INT_val T e)"
    if "0 < sint step"
      "INT_val T b + int (steps (INT_val T b) (INT_val T e) (sint step)) * sint step \<le> INT_max T"
    using that for_range_ascending [of step T b e] INT_val_progression [of step _ T b e]
    by blast
  have dflt: "for_range (xrange2 T b e) =
     Some (Inr (map (\<lambda>k. b + of_nat k) [0..<nat (INT_val T e - INT_val T b)]))"
    using for_range_ascending [of 1 T b e, OF _ unit_step_fits]
    by (simp add: xrange2_def steps_def)
  have ex1: "for_range (xrange2 int64_t 0 10) = Some (Inr [0, 1, 2, 3, 4, 5, 6, 7, 8, 9])"
    by (simp add: xrange_defs for_loop.simps)
  have ex2: "for_range (xrange2 uint64_t 0 10) = Some (Inr [0, 1, 2, 3, 4, 5, 6, 7, 8, 9])"
    by (simp add: xrange_defs for_loop.simps word_le_nat_alt)
  have ex3: "for_range (xrange int64_t 2 8 2) = Some (Inr [2, 4, 6])"
    by (simp add: xrange_defs for_loop.simps)
  have ex4: "for_range (xrange uint64_t 2 8 2) = Some (Inr [2, 4, 6])"
    by (simp add: xrange_defs for_loop.simps)
  have one: "xrange1 T e = xrange2 T 0 e"
    by (simp add: xrange1_def)
  have ex5: "for_range (xrange1 int64_t 10) = Some (Inr [0, 1, 2, 3, 4, 5, 6, 7, 8, 9])"
    using ex1 by (simp add: xrange1_def)
  have ex6: "for_range (xrange1 uint64_t 10) = Some (Inr [0, 1, 2, 3, 4, 5, 6, 7, 8, 9])"
    using ex2 by (simp add: xrange1_def)
  have two: "for_range (xrange1 T e) = for_range (xrange2 T 0 e)"
    by (simp only: one)
  from gen have gen': "0 < sint step \<and>
      INT_val T b + int (steps (INT_val T b) (INT_val T e) (sint step)) * sint step \<le> INT_max T \<longrightarrow>
      for_range (xrange T b e step) =
        Some (Inr (map (\<lambda>k. b + of_nat k * step)
          [0..<steps (INT_val T b) (INT_val T e) (sint step)])) \<and>
      (\<forall>k. k < steps (INT_val T b) (INT_val T e) (sint step) \<longrightarrow>
         INT_val T (b + of_nat k * step) = INT_val T b + int k * sint step \<and>
         INT_val T (b + of_nat k * step) < INT_val T e)"
    by blast
  show ?thesis
    by (intro conjI) (rule gen' dflt ex1 ex2 ex3 ex4 one two ex5 ex6)+
qed

theorem xrange_ascending_witness:
  "0 < sint (2::64 word) \<and>
   steps (INT_val int64_t 2) (INT_val int64_t 8) (sint (2::64 word)) = 3 \<and>
   INT_val int64_t 2 + int (steps (INT_val int64_t 2) (INT_val int64_t 8) (sint (2::64 word)))
     * sint (2::64 word) \<le> INT_max int64_t \<and>
   for_range (xrange int64_t 2 8 2) = Some (Inr (map (\<lambda>k. 2 + of_nat k * 2) [0..<3])) \<and>
   map (\<lambda>k. 2 + of_nat k * 2) [0..<3] = [2, 4, 6 :: 64 word] \<and>
   INT_val int64_t (2 + of_nat 2 * 2) = INT_val int64_t 2 + int 2 * sint (2::64 word) \<and>
   INT_val int64_t (2 + of_nat 2 * 2) < INT_val int64_t 8"
proof -
  have n: "steps (INT_val int64_t 2) (INT_val int64_t 8) (sint (2::64 word)) = 3"
    by (simp add: INT_val_def steps_def)
  have h: "0 < sint (2::64 word) \<and>
      INT_val int64_t 2 + int (steps (INT_val int64_t 2) (INT_val int64_t 8) (sint (2::64 word)))
        * sint (2::64 word) \<le> INT_max int64_t"
    unfolding n by (simp add: INT_val_def INT_max_def)
  have m: "map (\<lambda>k. 2 + of_nat k * 2) [0..<3] = [2, 4, 6 :: 64 word]"
    by (simp add: upt_rec)
  have k: "(2::nat) < 3" by simp
  from h n m k xrange_ascending [of 2 int64_t 2 8] show ?thesis
    by (metis (no_types, lifting))
qed

text \<open>
  Without that condition the traversal yields other values. At \<^verbatim>\<open>uint64_t\<close>, begin
  \<open>2 ^ 64 - 2\<close>, end \<open>2 ^ 64 - 1\<close> and step 2 make an ascending range with a positive
  step, whose only term below the end is begin: after it the cursor wraps around to
  0 and goes on over the even numbers, and the traversal does not return.
\<close>

theorem xrange_ascending_wraps:
  "(18446744073709551614 :: 64 word) < 18446744073709551615 \<and> 0 < sint (2 :: 64 word) \<and>
   for_range (xrange uint64_t 18446744073709551614 18446744073709551615 2) = None"
proof -
  have m: "(18446744073709551615 :: 64 word) = - 1" by simp
  have "for_range (xrange uint64_t 18446744073709551614 18446744073709551615 2) = None"
    unfolding m by (rule for_range_even_diverges) simp
  moreover have "(18446744073709551614 :: 64 word) < 18446744073709551615 \<and>
      0 < sint (2 :: 64 word)" by simp
  ultimately show ?thesis by (simp only: simp_thms)
qed

subsection \<open>Alignment and powers of two\<close>

text \<open>
  Claim C8: \<^verbatim>\<open>is_power_of_2(x)\<close> is true exactly when the 64-bit value \<open>x\<close> has exactly
  one set bit, that is when \<open>x\<close> is one of \<open>1, 2, 4, \<dots>, 2 ^ 63\<close>; it is false for 0 and
  for every value with two different set bits.
\<close>

theorem is_power_of_2_iff:
  "is_power_of_2 x = (\<exists>k. k < 64 \<and> x = 2 ^ k) \<and>
   is_power_of_2 x = (\<exists>k. {n. bit x n} = {k}) \<and>
   \<not> is_power_of_2 0 \<and>
   (i \<noteq> j \<and> bit x i \<and> bit x j \<longrightarrow> \<not> is_power_of_2 x)"
proof -
  have a: "is_power_of_2 x = (\<exists>k. k < 64 \<and> x = 2 ^ k)"
    unfolding is_power_of_2_def by (rule popcount_one_iff)
  have b: "is_power_of_2 x = (\<exists>k. {n. bit x n} = {k})"
    by (simp add: is_power_of_2_def popcount_card card_1_singleton_iff)
  have c: "\<not> is_power_of_2 0"
    by (simp add: is_power_of_2_def popcount_card)
  have d: "i \<noteq> j \<and> bit x i \<and> bit x j \<longrightarrow> \<not> is_power_of_2 x"
    unfolding b by (metis mem_Collect_eq singletonD)
  from a b c d show ?thesis by blast
qed

theorem is_power_of_2_iff_witness:
  "(1::nat) \<noteq> 2 \<and> bit (6::64 word) (1::nat) \<and> bit (6::64 word) (2::nat) \<and> \<not> is_power_of_2 6
   \<and> is_power_of_2 8 \<and> \<not> is_power_of_2 0"
proof -
  have h: "(1::nat) \<noteq> 2 \<and> bit (6::64 word) (1::nat) \<and> bit (6::64 word) (2::nat)"
    by (simp add: bit_simps bit_numeral_rec)
  have e: "is_power_of_2 8"
    by (simp add: is_power_of_2_def builtin_popcountl_def upt_rec bit_numeral_rec)
  from h e is_power_of_2_iff [of 6 1 2] show ?thesis by blast
qed

text \<open>
  Claim C7: for every 64-bit value \<open>x\<close> and every power of two \<open>p\<close>,
  \<open>alingn_down(x, p) \<le> x < alingn_down(x, p) + p\<close>; and \<^verbatim>\<open>alingn_up(5, 8) == 8\<close>,
  \<^verbatim>\<open>alingn_down(5, 8) == 0\<close>, \<^verbatim>\<open>alingn_up(8, 8) == 8\<close>.

  The powers of two are the values that \<^verbatim>\<open>is_power_of_2\<close> accepts (\<open>2 ^ k\<close> with
  \<open>k < 64\<close>, by the theorem above). The inequality is between the values of the words
  as natural numbers, so the sum on the right is not reduced modulo \<open>2 ^ 64\<close>.
\<close>

theorem alingn_down_bounds:
  "(is_power_of_2 p \<longrightarrow>
      unat (alingn_down x p) \<le> unat x \<and> unat x < unat (alingn_down x p) + unat p) \<and>
   alingn_up 5 8 = 8 \<and> alingn_down 5 8 = 0 \<and> alingn_up 8 8 = 8"
proof -
  have "unat x < unat (alingn_down x p) + unat p" if "is_power_of_2 p"
  proof -
    from that obtain k where k: "k < 64" "p = 2 ^ k"
      unfolding is_power_of_2_def popcount_one_iff by blast
    then have "unat p = 2 ^ k" by (simp add: unat_exp_64)
    with k alingn_down_gt [of x k] show ?thesis by simp
  qed
  moreover have "alingn_up 5 8 = 8 \<and> alingn_down 5 8 = 0 \<and> alingn_up 8 8 = 8"
    by (simp add: alingn_up_def alingn_down_def)
  ultimately show ?thesis by (simp add: alingn_down_le)
qed

theorem alingn_down_bounds_witness:
  "is_power_of_2 4096 \<and> alingn_down 12345 4096 = 12288 \<and>
   unat (alingn_down 12345 4096) \<le> unat (12345::64 word) \<and>
   unat (12345::64 word) < unat (alingn_down 12345 4096) + unat (4096::64 word)"
proof -
  have h: "is_power_of_2 4096"
    by (simp add: is_power_of_2_def builtin_popcountl_def upt_rec bit_numeral_rec)
  have v: "alingn_down 12345 4096 = 12288"
    by (simp add: alingn_down_def)
  from h v alingn_down_bounds [of 4096 12345] show ?thesis by blast
qed

end
